theory Spec2Isabelle
  imports Complex_Main
begin

section \<open>JavaScript values used by the hero slider\<close>

text \<open>
  Slide indices are JavaScript numbers. The slider only ever computes them with
  \<^verbatim>\<open>+ 1\<close>, \<^verbatim>\<open>- 1\<close> and \<^verbatim>\<open>%\<close>, so the model keeps the integers and the one
  non-integer such arithmetic can produce: \<^verbatim>\<open>NaN\<close>, the value of \<^verbatim>\<open>x % 0\<close>.
\<close>

datatype jsnum = Num int | NaN

text \<open>\<^verbatim>\<open>a === b\<close> on numbers: \<^verbatim>\<open>NaN\<close> is equal to nothing, itself included.\<close>

fun js_strict_eq :: "jsnum \<Rightarrow> jsnum \<Rightarrow> bool" where
  "js_strict_eq (Num a) (Num b) = (a = b)"
| "js_strict_eq _ _ = False"

fun js_add :: "jsnum \<Rightarrow> int \<Rightarrow> jsnum" where
  "js_add (Num a) b = Num (a + b)"
| "js_add NaN b = NaN"

text \<open>\<^verbatim>\<open>a % n\<close>: the remainder takes the sign of the dividend, and \<^verbatim>\<open>a % 0\<close> is \<^verbatim>\<open>NaN\<close>.\<close>

fun js_rem :: "jsnum \<Rightarrow> int \<Rightarrow> jsnum" where
  "js_rem (Num a) n = (if n = 0 then NaN else Num (sgn a * (\<bar>a\<bar> mod \<bar>n\<bar>)))"
| "js_rem NaN n = NaN"

text \<open>\<^verbatim>\<open>n > index\<close>: every comparison with \<^verbatim>\<open>NaN\<close> is false.\<close>

fun js_gt :: "int \<Rightarrow> jsnum \<Rightarrow> bool" where
  "js_gt n (Num k) = (n > k)"
| "js_gt n NaN = False"

text \<open>\<^verbatim>\<open>xs[index]\<close> on an array or a NodeList: \<^verbatim>\<open>undefined\<close> out of range.\<close>

fun js_index :: "'a list \<Rightarrow> jsnum \<Rightarrow> 'a option" where
  "js_index xs (Num k) = (if 0 \<le> k \<and> k < int (length xs) then Some (xs ! nat k) else None)"
| "js_index xs NaN = None"

definition digit_char :: "nat \<Rightarrow> char" where
  "digit_char d = char_of (48 + d)"

text \<open>The decimal numeral of a natural number, most significant digit first.\<close>

function string_of_nat :: "nat \<Rightarrow> string" where
  "string_of_nat n =
     (if n < 10 then [digit_char n] else string_of_nat (n div 10) @ [digit_char (n mod 10)])"
  by pat_completeness auto
termination
  by (relation "measure (\<lambda>n. n)") auto

declare string_of_nat.simps [simp del]

text \<open>\<^verbatim>\<open>String(x)\<close> and the \<^verbatim>\<open>${x}\<close> of a template literal, on a number.\<close>

fun js_String :: "jsnum \<Rightarrow> string" where
  "js_String (Num k) = (if k < 0 then ''-'' @ string_of_nat (nat (- k)) else string_of_nat (nat k))"
| "js_String NaN = ''NaN''"

text \<open>\<^verbatim>\<open>s.padStart(n, c)\<close> for a one-character pad string.\<close>

definition padStart :: "string \<Rightarrow> nat \<Rightarrow> char \<Rightarrow> string" where
  "padStart s n c = replicate (n - length s) c @ s"

text \<open>\<^verbatim>\<open>toUpperCase\<close>, on the ASCII letters (other characters are left as they are).\<close>

definition to_upper_char :: "char \<Rightarrow> char" where
  "to_upper_char c =
     (let n = (of_char c :: nat) in if 97 \<le> n \<and> n \<le> 122 then char_of (n - 32) else c)"

definition toUpperCase :: "string \<Rightarrow> string" where
  "toUpperCase s = map to_upper_char s"

section \<open>The page and the slider object\<close>

record pet =
  pet_id :: int
  pet_name :: string
  pet_age :: int
  pet_breed :: string

text \<open>
  The part of the document the slider touches. \<open>slide_active\<close> and \<open>dot_active\<close> hold,
  for each \<^verbatim>\<open>.hero-slide\<close> and \<^verbatim>\<open>.slider-dot\<close> element, whether its class list has
  \<^verbatim>\<open>active\<close>. A content element is \<open>None\<close> when \<^verbatim>\<open>getElementById\<close> finds nothing,
  and otherwise holds its text (its \<^verbatim>\<open>href\<close> for the two call-to-action links).
\<close>

record page =
  container :: bool
  slide_active :: "bool list"
  dot_active :: "bool list"
  heroTitle :: "string option"
  heroCTA1 :: "string option"
  heroCTA2 :: "string option"
  petCounter :: "string option"
  petAge :: "string option"
  petBreed :: "string option"

text \<open>The constructor's \<^verbatim>\<open>options\<close> object; \<open>None\<close> is a property that is not supplied.\<close>

record options =
  opt_pets :: "pet list option"
  opt_autoPlay :: "bool option"
  opt_autoPlayDelay :: "int option"

text \<open>
  The fields of \<^verbatim>\<open>ModernHeroSlider\<close>, and what the object has handed to the host:
  \<open>autoPlayTimer\<close> is the period of the running \<^verbatim>\<open>setInterval\<close>, \<open>resetTimeouts\<close> the
  delays of the \<^verbatim>\<open>setTimeout\<close> callbacks of \<^verbatim>\<open>updateSlide\<close> that have not fired yet,
  \<open>timelineCalls\<close> the arguments of the \<^verbatim>\<open>updateContent\<close> callbacks queued on animation
  timelines, \<open>startX\<close> and \<open>startY\<close> the variables of \<^verbatim>\<open>setupTouchEvents\<close>.
\<close>

record slider =
  doc :: page
  pets :: "pet list"
  currentIndex :: jsnum
  isTransitioning :: bool
  autoPlay :: bool
  autoPlayDelay :: int
  autoPlayTimer :: "int option"
  resetTimeouts :: "nat list"
  timelineCalls :: "jsnum list"
  startX :: int
  startY :: int

abbreviation slide_count :: "slider \<Rightarrow> nat" where
  "slide_count s \<equiv> length (slide_active (doc s))"

text \<open>\<^verbatim>\<open>xs[index]?.classList.add("active")\<close> (\<open>b = True\<close>) and \<^verbatim>\<open>remove\<close> (\<open>b = False\<close>).\<close>

fun class_set :: "bool list \<Rightarrow> jsnum \<Rightarrow> bool \<Rightarrow> bool list" where
  "class_set xs (Num k) b = (if 0 \<le> k \<and> k < int (length xs) then xs[nat k := b] else xs)"
| "class_set xs NaN b = xs"

text \<open>\<^verbatim>\<open>if (el) el.textContent = v\<close>.\<close>

fun set_text :: "string option \<Rightarrow> string \<Rightarrow> string option" where
  "set_text None v = None"
| "set_text (Some old) v = Some v"

section \<open>The slider's methods\<close>

definition age_text :: "int \<Rightarrow> string" where
  "age_text a = js_String (Num a) @ '' '' @ (if a = 1 then ''year'' else ''years'')"

definition counter_text :: "jsnum \<Rightarrow> string" where
  "counter_text index = padStart (js_String (js_add index 1)) 2 (CHR ''0'')"

definition updateContent :: "slider \<Rightarrow> jsnum \<Rightarrow> slider" where
  "updateContent s index =
     (case js_index (pets s) index of
        None \<Rightarrow> s
      | Some p \<Rightarrow>
          s\<lparr>doc := (doc s)\<lparr>
            heroTitle := set_text (heroTitle (doc s)) (toUpperCase (pet_name p)),
            heroCTA1 := set_text (heroCTA1 (doc s)) (''/adopt/'' @ js_String (Num (pet_id p))),
            heroCTA2 := set_text (heroCTA2 (doc s)) (''/adopt/'' @ js_String (Num (pet_id p))),
            petCounter := set_text (petCounter (doc s)) (counter_text index),
            petAge := set_text (petAge (doc s)) (age_text (pet_age p)),
            petBreed := set_text (petBreed (doc s)) (pet_breed p)\<rparr>\<rparr>)"

text \<open>
  The timeline fades the content out, calls \<^verbatim>\<open>updateContent(index)\<close> and fades it back
  in. The tweens belong to the animation engine; the queued call is kept.
\<close>

definition animateSlideTransition :: "slider \<Rightarrow> jsnum \<Rightarrow> slider" where
  "animateSlideTransition s index = s\<lparr>timelineCalls := timelineCalls s @ [index]\<rparr>"

definition updateSlide :: "slider \<Rightarrow> jsnum \<Rightarrow> bool \<Rightarrow> slider" where
  "updateSlide s index animate =
     (if isTransitioning s \<and> animate then s
      else
        let s1 = s\<lparr>isTransitioning := True\<rparr>;
            s2 = s1\<lparr>doc := (doc s1)\<lparr>
                   slide_active := class_set (slide_active (doc s1)) (currentIndex s1) False,
                   dot_active := class_set (dot_active (doc s1)) (currentIndex s1) False\<rparr>\<rparr>;
            s3 = s2\<lparr>doc := (doc s2)\<lparr>
                   slide_active := class_set (slide_active (doc s2)) index True,
                   dot_active := class_set (dot_active (doc s2)) index True\<rparr>\<rparr>;
            s4 = (if js_gt (int (length (pets s3))) index then updateContent s3 index else s3);
            s5 = (if animate then animateSlideTransition s4 index else s4);
            s6 = s5\<lparr>currentIndex := index\<rparr>
        in s6\<lparr>resetTimeouts := resetTimeouts s6 @ [if animate then 800 else 0]\<rparr>)"

definition goToSlide :: "slider \<Rightarrow> jsnum \<Rightarrow> slider" where
  "goToSlide s index =
     (if isTransitioning s \<or> js_strict_eq index (currentIndex s) then s
      else updateSlide s index True)"

definition nextSlide :: "slider \<Rightarrow> slider" where
  "nextSlide s =
     (if isTransitioning s then s
      else goToSlide s (js_rem (js_add (currentIndex s) 1) (int (slide_count s))))"

definition prevSlide :: "slider \<Rightarrow> slider" where
  "prevSlide s =
     (if isTransitioning s then s
      else goToSlide s
             (if js_strict_eq (currentIndex s) (Num 0) then Num (int (slide_count s) - 1)
              else js_add (currentIndex s) (- 1)))"

definition pauseAutoPlay :: "slider \<Rightarrow> slider" where
  "pauseAutoPlay s = (case autoPlayTimer s of None \<Rightarrow> s | Some t \<Rightarrow> s\<lparr>autoPlayTimer := None\<rparr>)"

definition startAutoPlay :: "slider \<Rightarrow> slider" where
  "startAutoPlay s =
     (if \<not> autoPlay s \<or> slide_count s \<le> 1 then s
      else (pauseAutoPlay s)\<lparr>autoPlayTimer := Some (autoPlayDelay s)\<rparr>)"

text \<open>
  \<^verbatim>\<open>init\<close>: the listeners it registers and the opening animation change no field, so
  what is left is the autoplay timer and the first \<^verbatim>\<open>updateSlide(0, false)\<close>.
\<close>

definition init :: "slider \<Rightarrow> slider" where
  "init s =
     (if \<not> container (doc s) \<or> slide_count s = 0 then s
      else
        let s1 = (if autoPlay s then startAutoPlay s else s)
        in updateSlide s1 (Num 0) False)"

text \<open>
  \<^verbatim>\<open>options.autoPlayDelay || 5000\<close>: the delay that is not supplied, and the falsy
  delay \<open>0\<close>, both give 5000.
\<close>

definition constructor :: "page \<Rightarrow> options \<Rightarrow> slider" where
  "constructor d opts =
     init \<lparr>doc = d,
           pets = (case opt_pets opts of None \<Rightarrow> [] | Some ps \<Rightarrow> ps),
           currentIndex = Num 0,
           isTransitioning = False,
           autoPlay = (opt_autoPlay opts \<noteq> Some False),
           autoPlayDelay = (case opt_autoPlayDelay opts of
                              None \<Rightarrow> 5000
                            | Some ms \<Rightarrow> if ms = 0 then 5000 else ms),
           autoPlayTimer = None,
           resetTimeouts = [],
           timelineCalls = [],
           startX = 0,
           startY = 0\<rparr>"

text \<open>The page's \<^verbatim>\<open>DOMContentLoaded\<close> handler; the argument is \<^verbatim>\<open>window.petsData\<close>.\<close>

definition domContentLoaded :: "page \<Rightarrow> pet list option \<Rightarrow> slider" where
  "domContentLoaded d petsData =
     constructor d \<lparr>opt_pets = Some (case petsData of None \<Rightarrow> [] | Some ps \<Rightarrow> ps),
                    opt_autoPlay = Some True,
                    opt_autoPlayDelay = Some 6000\<rparr>"

subsection \<open>Touch handlers\<close>

text \<open>
  The two listeners of \<^verbatim>\<open>setupTouchEvents\<close>, with the \<^verbatim>\<open>clientX\<close> and \<^verbatim>\<open>clientY\<close> of the
  touch in whole pixels. \<^verbatim>\<open>endX\<close> and \<^verbatim>\<open>endY\<close> are written before they are read, so
  they are arguments here.
\<close>

definition touchstart :: "slider \<Rightarrow> int \<Rightarrow> int \<Rightarrow> slider" where
  "touchstart s x y = s\<lparr>startX := x, startY := y\<rparr>"

definition touchend :: "slider \<Rightarrow> int \<Rightarrow> int \<Rightarrow> slider" where
  "touchend s endX endY =
     (let diffX = startX s - endX;
          diffY = startY s - endY
      in if \<bar>diffX\<bar> > \<bar>diffY\<bar> \<and> \<bar>diffX\<bar> > 50
         then (if diffX > 0 then nextSlide s else prevSlide s)
         else s)"

subsection \<open>Events\<close>

text \<open>
  What can happen to a slider: one of its three commands is called (by a button, a dot,
  a key, a swipe or a script), the oldest pending \<^verbatim>\<open>setTimeout\<close> callback of
  \<^verbatim>\<open>updateSlide\<close> fires, the oldest queued timeline callback runs, or the autoplay
  interval ticks.
\<close>

datatype command = Next | Prev | Goto jsnum

datatype event = Command command | Timeout | TimelineCall | AutoPlayTick

fun exec_command :: "slider \<Rightarrow> command \<Rightarrow> slider" where
  "exec_command s Next = nextSlide s"
| "exec_command s Prev = prevSlide s"
| "exec_command s (Goto index) = goToSlide s index"

fun step :: "slider \<Rightarrow> event \<Rightarrow> slider" where
  "step s (Command c) = exec_command s c"
| "step s Timeout =
     (case resetTimeouts s of
        [] \<Rightarrow> s
      | t # ts \<Rightarrow> s\<lparr>isTransitioning := False, resetTimeouts := ts\<rparr>)"
| "step s TimelineCall =
     (case timelineCalls s of
        [] \<Rightarrow> s
      | index # rest \<Rightarrow> updateContent (s\<lparr>timelineCalls := rest\<rparr>) index)"
| "step s AutoPlayTick = (case autoPlayTimer s of None \<Rightarrow> s | Some t \<Rightarrow> nextSlide s)"

fun run :: "slider \<Rightarrow> event list \<Rightarrow> slider" where
  "run s [] = s"
| "run s (e # es) = run (step s e) es"

section \<open>Stagger delays of the motion library\<close>

text \<open>
  A JavaScript array is a list of slots; \<open>None\<close> is a hole. \<^verbatim>\<open>delays[i] = v\<close> overwrites
  slot \<open>i\<close> when it exists and extends the array up to it otherwise. Delays are numbers
  of seconds such as 0.1; they are taken as reals.
\<close>

definition array_set :: "'a option list \<Rightarrow> nat \<Rightarrow> 'a \<Rightarrow> 'a option list" where
  "array_set xs i v =
     (if i < length xs then xs[i := Some v]
      else xs @ replicate (i - length xs) None @ [Some v])"

text \<open>\<^verbatim>\<open>for (let i = k; i < length; i++) { delays[i] = f(i); }\<close>\<close>

function for_loop :: "(nat \<Rightarrow> real) \<Rightarrow> nat \<Rightarrow> nat \<Rightarrow> real option list \<Rightarrow> real option list" where
  "for_loop f i len delays =
     (if i < len then for_loop f (Suc i) len (array_set delays i (f i)) else delays)"
  by pat_completeness auto
termination
  by (relation "measure (\<lambda>(f, i, len, delays). len - i)") auto

declare for_loop.simps [simp del]

datatype stagger_from = From_start | From_end | From_center | From_number real | From_other

definition calculateStaggerDelays :: "nat \<Rightarrow> real \<Rightarrow> stagger_from \<Rightarrow> real option list" where
  "calculateStaggerDelays len staggerDelay from =
     (let delays =
            (case from of
               From_end \<Rightarrow> for_loop (\<lambda>i. (real len - 1 - real i) * staggerDelay) 0 len []
             | From_center \<Rightarrow>
                 (let center = len div 2
                  in for_loop (\<lambda>i. \<bar>real i - real center\<bar> * staggerDelay) 0 len [])
             | _ \<Rightarrow> for_loop (\<lambda>i. real i * staggerDelay) 0 len [])
      in case from of
           From_number k \<Rightarrow> for_loop (\<lambda>i. \<bar>real i - k\<bar> * staggerDelay) 0 len delays
         | _ \<Rightarrow> delays)"

section \<open>Notions used to state the properties\<close>

text \<open>
  Every pending \<^verbatim>\<open>setTimeout\<close> callback of \<^verbatim>\<open>updateSlide\<close> is a transition in flight:
  there is one exactly while the flag is set, and none otherwise.
\<close>

definition timers_ok :: "slider \<Rightarrow> bool" where
  "timers_ok s \<longleftrightarrow> length (resetTimeouts s) = (if isTransitioning s then 1 else 0)"

text \<open>A command followed by the completion of the transition it may have started.\<close>

definition completed :: "command \<Rightarrow> slider \<Rightarrow> slider" where
  "completed c s = step (step s (Command c)) Timeout"

text \<open>An event whose \<^verbatim>\<open>goToSlide\<close> argument, if it has one, is the index of a slide.\<close>

fun goto_in_range :: "nat \<Rightarrow> event \<Rightarrow> bool" where
  "goto_in_range n (Command (Goto (Num k))) = (0 \<le> k \<and> k < int n)"
| "goto_in_range n (Command (Goto NaN)) = False"
| "goto_in_range n e = True"

text \<open>The current index is an integer that is the index of a slide.\<close>

definition index_valid :: "slider \<Rightarrow> bool" where
  "index_valid s \<longleftrightarrow>
     (\<exists>k. currentIndex s = Num k \<and> 0 \<le> k \<and> k < int (slide_count s))"

text \<open>The displayed content: title, the two links, counter, age and breed.\<close>

definition content :: "page \<Rightarrow> string option \<times> string option \<times> string option \<times>
    string option \<times> string option \<times> string option" where
  "content d = (heroTitle d, heroCTA1 d, heroCTA2 d, petCounter d, petAge d, petBreed d)"

text \<open>The number a string of decimal digits denotes.\<close>

definition digit_value :: "char \<Rightarrow> nat" where
  "digit_value c = of_char c - 48"

definition decimal_value :: "string \<Rightarrow> nat" where
  "decimal_value s = foldl (\<lambda>acc c. 10 * acc + digit_value c) 0 s"

subsection \<open>A small page for concrete runs\<close>

definition example_page :: page where
  "example_page =
     \<lparr>container = True,
      slide_active = [True, False, False],
      dot_active = [True, False, False],
      heroTitle = Some ''Adopt me'',
      heroCTA1 = Some ''#'',
      heroCTA2 = None,
      petCounter = Some ''00'',
      petAge = Some '''',
      petBreed = Some ''''\<rparr>"

definition rex :: pet where
  "rex = \<lparr>pet_id = 7, pet_name = ''Rex'', pet_age = 1, pet_breed = ''Labrador''\<rparr>"

definition mia :: pet where
  "mia = \<lparr>pet_id = 12, pet_name = ''Mia'', pet_age = 0, pet_breed = ''Siamese''\<rparr>"

definition example_pets :: "pet list" where
  "example_pets = [rex, mia]"

definition example_slider :: slider where
  "example_slider = run (domContentLoaded example_page (Some example_pets)) [Timeout]"


section \<open>Basic facts about the methods\<close>

lemma length_class_set [simp]: "length (class_set xs i b) = length xs"
  by (cases i) simp_all

lemma updateContent_fields [simp]:
  "pets (updateContent s i) = pets s"
  "currentIndex (updateContent s i) = currentIndex s"
  "isTransitioning (updateContent s i) = isTransitioning s"
  "autoPlay (updateContent s i) = autoPlay s"
  "autoPlayDelay (updateContent s i) = autoPlayDelay s"
  "autoPlayTimer (updateContent s i) = autoPlayTimer s"
  "resetTimeouts (updateContent s i) = resetTimeouts s"
  "timelineCalls (updateContent s i) = timelineCalls s"
  "slide_active (doc (updateContent s i)) = slide_active (doc s)"
  "dot_active (doc (updateContent s i)) = dot_active (doc s)"
  "container (doc (updateContent s i)) = container (doc s)"
  by (simp_all add: updateContent_def split: option.split)

lemma updateSlide_busy: "isTransitioning s \<Longrightarrow> updateSlide s i True = s"
  by (simp add: updateSlide_def)

lemma updateSlide_fields:
  assumes "\<not> (isTransitioning s \<and> a)"
  shows "isTransitioning (updateSlide s i a)"
    and "currentIndex (updateSlide s i a) = i"
    and "resetTimeouts (updateSlide s i a) = resetTimeouts s @ [if a then 800 else 0]"
    and "pets (updateSlide s i a) = pets s"
    and "autoPlayTimer (updateSlide s i a) = autoPlayTimer s"
    and "autoPlayDelay (updateSlide s i a) = autoPlayDelay s"
    and "autoPlay (updateSlide s i a) = autoPlay s"
    and "slide_active (doc (updateSlide s i a)) =
           class_set (class_set (slide_active (doc s)) (currentIndex s) False) i True"
    and "dot_active (doc (updateSlide s i a)) =
           class_set (class_set (dot_active (doc s)) (currentIndex s) False) i True"
    and "timelineCalls (updateSlide s i a) = timelineCalls s @ (if a then [i] else [])"
  using assms by (auto simp add: updateSlide_def Let_def animateSlideTransition_def)

lemma slide_count_updateSlide [simp]: "slide_count (updateSlide s i a) = slide_count s"
  by (cases "isTransitioning s \<and> a") (simp_all add: updateSlide_fields, simp add: updateSlide_def)

lemma goToSlide_busy: "isTransitioning s \<Longrightarrow> goToSlide s i = s"
  by (simp add: goToSlide_def)

lemma nextSlide_busy: "isTransitioning s \<Longrightarrow> nextSlide s = s"
  by (simp add: nextSlide_def)

lemma prevSlide_busy: "isTransitioning s \<Longrightarrow> prevSlide s = s"
  by (simp add: prevSlide_def)

lemma exec_command_busy: "isTransitioning s \<Longrightarrow> exec_command s c = s"
  by (cases c) (simp_all add: goToSlide_busy nextSlide_busy prevSlide_busy)

text \<open>A command either changes nothing or starts one transition to some index.\<close>

lemma exec_command_cases:
  "exec_command s c = s \<or> (\<not> isTransitioning s \<and> (\<exists>i. exec_command s c = updateSlide s i True))"
  by (cases c) (auto simp add: goToSlide_def nextSlide_def prevSlide_def)

lemma nextSlide_cases:
  "nextSlide s = s \<or> (\<not> isTransitioning s \<and> (\<exists>i. nextSlide s = updateSlide s i True))"
  using exec_command_cases [of s Next] by simp

lemma timers_ok_updateSlide:
  "timers_ok s \<Longrightarrow> \<not> isTransitioning s \<Longrightarrow> timers_ok (updateSlide s i a)"
  by (simp add: timers_ok_def updateSlide_fields)

lemma timers_ok_exec_command: "timers_ok s \<Longrightarrow> timers_ok (exec_command s c)"
  using exec_command_cases [of s c] by (auto simp add: timers_ok_updateSlide)

lemma timers_ok_nextSlide: "timers_ok s \<Longrightarrow> timers_ok (nextSlide s)"
  using timers_ok_exec_command [of s Next] by simp

lemma timers_ok_step: "timers_ok s \<Longrightarrow> timers_ok (step s e)"
proof (cases e)
  case (Command c)
  assume "timers_ok s"
  with Command show ?thesis by (simp add: timers_ok_exec_command)
next
  case Timeout
  assume "timers_ok s"
  with Timeout show ?thesis
    by (cases "resetTimeouts s") (auto simp add: timers_ok_def split: if_splits)
next
  case TimelineCall
  assume "timers_ok s"
  with TimelineCall show ?thesis
    by (cases "timelineCalls s") (auto simp add: timers_ok_def)
next
  case AutoPlayTick
  assume "timers_ok s"
  with AutoPlayTick show ?thesis
    by (cases "autoPlayTimer s") (simp_all add: timers_ok_nextSlide)
qed

lemma timers_ok_run: "timers_ok s \<Longrightarrow> timers_ok (run s es)"
  by (induction es arbitrary: s) (simp_all add: timers_ok_step)

lemma startAutoPlay_fields [simp]:
  "isTransitioning (startAutoPlay s) = isTransitioning s"
  "resetTimeouts (startAutoPlay s) = resetTimeouts s"
  "currentIndex (startAutoPlay s) = currentIndex s"
  "doc (startAutoPlay s) = doc s"
  "autoPlayDelay (startAutoPlay s) = autoPlayDelay s"
  "autoPlay (startAutoPlay s) = autoPlay s"
  by (simp_all add: startAutoPlay_def pauseAutoPlay_def split: option.split)

lemma timers_ok_init:
  "\<not> isTransitioning s \<Longrightarrow> resetTimeouts s = [] \<Longrightarrow> timers_ok (init s)"
  by (simp add: init_def timers_ok_def updateSlide_fields)

lemma timers_ok_constructor: "timers_ok (constructor d opts)"
  by (simp add: constructor_def timers_ok_init)

lemma flag_cleared_only_by_timeout:
  "isTransitioning s \<Longrightarrow> \<not> isTransitioning (step s e) \<Longrightarrow> e = Timeout"
proof (cases e)
  case (Command c)
  assume "isTransitioning s" "\<not> isTransitioning (step s e)"
  with Command show ?thesis by (simp add: exec_command_busy)
next
  case Timeout
  then show ?thesis by simp
next
  case TimelineCall
  assume "isTransitioning s" "\<not> isTransitioning (step s e)"
  with TimelineCall show ?thesis by (cases "timelineCalls s") simp_all
next
  case AutoPlayTick
  assume "isTransitioning s" "\<not> isTransitioning (step s e)"
  with AutoPlayTick show ?thesis by (cases "autoPlayTimer s") (simp_all add: nextSlide_busy)
qed

section \<open>One transition at a time\<close>

text \<open>
  Claim C1. On a slider built by the constructor, after any sequence of commands, timer
  callbacks, timeline callbacks and autoplay ticks, at most one transition is in flight:
  a completion callback is pending exactly when \<open>isTransitioning\<close> is set, and then
  there is one. While the flag is set every \<^verbatim>\<open>next\<close>, \<^verbatim>\<open>prev\<close> and \<^verbatim>\<open>goto\<close> command
  leaves the whole state as it is, the only event that clears the flag is the scheduled
  completion, and that completion does clear it.
\<close>

theorem single_transition_in_flight:
  "length (resetTimeouts (run (constructor d opts) es)) =
     (if isTransitioning (run (constructor d opts) es) then 1 else 0)
   \<and> (isTransitioning (run (constructor d opts) es) \<longrightarrow>
        step (run (constructor d opts) es) (Command c) = run (constructor d opts) es)
   \<and> (isTransitioning (run (constructor d opts) es) \<longrightarrow>
        \<not> isTransitioning (step (run (constructor d opts) es) e) \<longrightarrow> e = Timeout)
   \<and> \<not> isTransitioning (step (run (constructor d opts) es) Timeout)"
proof -
  let ?s = "run (constructor d opts) es"
  have ok: "timers_ok ?s"
    by (simp add: timers_ok_run timers_ok_constructor)
  then have one: "length (resetTimeouts ?s) = (if isTransitioning ?s then 1 else 0)"
    by (simp add: timers_ok_def)
  have noop: "isTransitioning ?s \<longrightarrow> step ?s (Command c) = ?s"
    by (simp add: exec_command_busy)
  have only: "isTransitioning ?s \<longrightarrow> \<not> isTransitioning (step ?s e) \<longrightarrow> e = Timeout"
    using flag_cleared_only_by_timeout by blast
  have cleared: "\<not> isTransitioning (step ?s Timeout)"
    using one by (cases "resetTimeouts ?s") (auto split: if_splits)
  from one noop only cleared show ?thesis by blast
qed

theorem single_transition_in_flight_witness:
  "isTransitioning (run (constructor example_page \<lparr>opt_pets = None, opt_autoPlay = None,
       opt_autoPlayDelay = None\<rparr>) [Timeout, Command Next])
   \<and> step (run (constructor example_page \<lparr>opt_pets = None, opt_autoPlay = None,
       opt_autoPlayDelay = None\<rparr>) [Timeout, Command Next]) (Command (Goto (Num 2)))
     = run (constructor example_page \<lparr>opt_pets = None, opt_autoPlay = None,
       opt_autoPlayDelay = None\<rparr>) [Timeout, Command Next]
   \<and> length (resetTimeouts (run (constructor example_page \<lparr>opt_pets = None, opt_autoPlay = None,
       opt_autoPlayDelay = None\<rparr>) [Timeout, Command Next])) = 1"
proof -
  let ?s = "run (constructor example_page \<lparr>opt_pets = None, opt_autoPlay = None,
       opt_autoPlayDelay = None\<rparr>) [Timeout, Command Next]"
  have busy: "isTransitioning ?s"
    by code_simp
  with single_transition_in_flight
         [of example_page "\<lparr>opt_pets = None, opt_autoPlay = None, opt_autoPlayDelay = None\<rparr>"
             "[Timeout, Command Next]" "Goto (Num 2)" Timeout]
  show ?thesis by simp
qed

section \<open>Rendered texts\<close>



lemma string_of_nat_nonempty: "string_of_nat n \<noteq> []"
  by (subst string_of_nat.simps) simp

text \<open>
  \<open>string_of_nat n\<close> is the decimal numeral of \<open>n\<close>: its characters are digits, they
  denote \<open>n\<close>, and the first one is not a zero unless \<open>n\<close> is.
\<close>

lemma digit_value_digit_char: "d < 10 \<Longrightarrow> digit_value (digit_char d) = d"
  by (simp add: digit_value_def digit_char_def)

lemma decimal_value_snoc: "decimal_value (s @ [c]) = 10 * decimal_value s + digit_value c"
  by (simp add: decimal_value_def)

lemma string_of_nat_is_decimal: "decimal_value (string_of_nat n) = n"
proof (induction n rule: string_of_nat.induct)
  case (1 n)
  show ?case
  proof (cases "n < 10")
    case True
    then show ?thesis
      by (subst string_of_nat.simps) (simp add: decimal_value_def digit_value_digit_char)
  next
    case False
    with "1.IH" have "decimal_value (string_of_nat (n div 10)) = n div 10"
      by simp
    with False show ?thesis
      by (subst string_of_nat.simps) (simp add: decimal_value_snoc digit_value_digit_char)
  qed
qed

lemma string_of_nat_digits: "c \<in> set (string_of_nat n) \<Longrightarrow> c \<in> digit_char ` {0..<10}"
proof (induction n rule: string_of_nat.induct)
  case (1 n)
  show ?case
  proof (cases "n < 10")
    case True
    with "1.prems" show ?thesis
      by (subst (asm) string_of_nat.simps) simp
  next
    case False
    with "1.prems" "1.IH" show ?thesis
      by (subst (asm) string_of_nat.simps) auto
  qed
qed

lemma string_of_nat_no_leading_zero: "0 < n \<Longrightarrow> hd (string_of_nat n) \<noteq> CHR ''0''"
proof (induction n rule: string_of_nat.induct)
  case (1 n)
  show ?case
  proof (cases "n < 10")
    case True
    with "1.prems" have "digit_char n \<noteq> CHR ''0''"
      using digit_value_digit_char [of n] by (auto simp add: digit_value_def)
    with True show ?thesis
      by (subst string_of_nat.simps) simp
  next
    case False
    then have "0 < n div 10" by simp
    with False "1.IH" have "hd (string_of_nat (n div 10)) \<noteq> CHR ''0''"
      by simp
    moreover have "string_of_nat (n div 10) \<noteq> []"
      by (subst string_of_nat.simps) simp
    ultimately show ?thesis
      using False by (subst string_of_nat.simps) simp
  qed
qed











section \<open>Wrap-around, the no-op and swipes\<close>

lemma js_rem_succ:
  "0 \<le> i \<Longrightarrow> 0 < n \<Longrightarrow> js_rem (js_add (Num i) 1) (int n) = Num ((i + 1) mod int n)"
  by simp

lemma goToSlide_index:
  "\<not> isTransitioning s \<Longrightarrow> currentIndex s = Num j \<Longrightarrow>
   currentIndex (goToSlide s (Num k)) = Num k"
  by (auto simp add: goToSlide_def updateSlide_fields)

lemma slide_count_exec_command [simp]: "slide_count (exec_command s c) = slide_count s"
  using exec_command_cases [of s c] by auto

lemma slide_count_step [simp]: "slide_count (step s e) = slide_count s"
proof (cases e)
  case (Command c)
  then show ?thesis by simp
next
  case Timeout
  then show ?thesis by (cases "resetTimeouts s") simp_all
next
  case TimelineCall
  then show ?thesis by (cases "timelineCalls s") simp_all
next
  case AutoPlayTick
  then show ?thesis
    using slide_count_exec_command [of s Next] by (cases "autoPlayTimer s") simp_all
qed

lemma currentIndex_Timeout [simp]: "currentIndex (step s Timeout) = currentIndex s"
  by (cases "resetTimeouts s") simp_all

lemma idle_after_completed: "\<not> isTransitioning s \<Longrightarrow> \<not> isTransitioning (completed c s)"
proof -
  assume idle: "\<not> isTransitioning s"
  from exec_command_cases [of s c] show ?thesis
  proof
    assume "exec_command s c = s"
    with idle show ?thesis
      by (cases "resetTimeouts s") (simp_all add: completed_def)
  next
    assume "\<not> isTransitioning s \<and> (\<exists>i. exec_command s c = updateSlide s i True)"
    then obtain i where "exec_command s c = updateSlide s i True"
      by blast
    with idle show ?thesis
      by (cases "resetTimeouts s") (simp_all add: completed_def updateSlide_fields)
  qed
qed

lemma slide_count_completed [simp]: "slide_count (completed c s) = slide_count s"
  by (simp add: completed_def del: step.simps)

lemma completed_Next_index:
  assumes "\<not> isTransitioning s" and "currentIndex s = Num i"
    and "0 \<le> i" and "i < int (slide_count s)"
  shows "currentIndex (completed Next s) = Num ((i + 1) mod int (slide_count s))"
proof -
  from assms have "0 < slide_count s"
    by (cases "slide_count s") simp_all
  with assms have "nextSlide s = goToSlide s (Num ((i + 1) mod int (slide_count s)))"
    by (simp add: nextSlide_def)
  with assms(1,2) show ?thesis
    by (simp add: completed_def goToSlide_index del: step.simps(2))
qed

lemma completed_Prev_index:
  assumes "\<not> isTransitioning s" and "currentIndex s = Num j"
  shows "currentIndex (completed Prev s) =
           Num (if j = 0 then int (slide_count s) - 1 else j - 1)"
proof -
  from assms have "prevSlide s =
      goToSlide s (Num (if j = 0 then int (slide_count s) - 1 else j - 1))"
    by (simp add: prevSlide_def)
  with assms show ?thesis
    by (simp add: completed_def goToSlide_index del: step.simps(2))
qed

lemma next_iterated:
  assumes "\<not> isTransitioning s" and "currentIndex s = Num i"
    and "0 \<le> i" and "i < int (slide_count s)"
  shows "\<not> isTransitioning ((completed Next ^^ k) s)
         \<and> slide_count ((completed Next ^^ k) s) = slide_count s
         \<and> currentIndex ((completed Next ^^ k) s) = Num ((i + int k) mod int (slide_count s))"
proof (induction k)
  case 0
  from assms show ?case by simp
next
  case (Suc k)
  let ?t = "(completed Next ^^ k) s"
  let ?n = "int (slide_count s)"
  from assms have pos: "0 < ?n"
    by linarith
  from Suc have idle: "\<not> isTransitioning ?t" and cnt: "slide_count ?t = slide_count s"
    and idx: "currentIndex ?t = Num ((i + int k) mod ?n)"
    by simp_all
  have lo: "0 \<le> (i + int k) mod ?n" and hi: "(i + int k) mod ?n < int (slide_count ?t)"
    using pos cnt by simp_all
  from completed_Next_index [OF idle idx lo hi]
  have "currentIndex (completed Next ?t) = Num (((i + int k) mod ?n + 1) mod ?n)"
    by (simp add: cnt)
  also have "((i + int k) mod ?n + 1) mod ?n = (i + int (Suc k)) mod ?n"
    by (simp add: mod_simps ac_simps)
  finally show ?case
    using idle cnt by (simp add: idle_after_completed)
qed

text \<open>
  Claim C4. With at least one slide, a valid current index and no transition in flight,
  \<^verbatim>\<open>next\<close> applied as many times as there are slides, each transition completing,
  brings \<open>currentIndex\<close> back to where it was; and \<^verbatim>\<open>prev\<close> after \<^verbatim>\<open>next\<close>, each
  completing, restores it too.
\<close>

theorem next_wraparound_prev_inverse:
  assumes "\<not> isTransitioning s" and "currentIndex s = Num i"
    and "0 \<le> i" and "i < int (slide_count s)"
  shows "currentIndex ((completed Next ^^ slide_count s) s) = Num i
         \<and> currentIndex (completed Prev (completed Next s)) = Num i"
proof -
  let ?n = "int (slide_count s)"
  from next_iterated [OF assms, of "slide_count s"] assms(3,4)
  have wrap: "currentIndex ((completed Next ^^ slide_count s) s) = Num i"
    by simp
  let ?t = "completed Next s"
  have idle: "\<not> isTransitioning ?t"
    using assms(1) by (rule idle_after_completed)
  have idx: "currentIndex ?t = Num ((i + 1) mod ?n)"
    using assms by (rule completed_Next_index)
  have "currentIndex (completed Prev ?t) =
          Num (if (i + 1) mod ?n = 0 then ?n - 1 else (i + 1) mod ?n - 1)"
    using completed_Prev_index [OF idle idx] by simp
  also have "(if (i + 1) mod ?n = 0 then ?n - 1 else (i + 1) mod ?n - 1) = i"
  proof (cases "i + 1 = ?n")
    case True
    then show ?thesis by auto
  next
    case False
    with assms(3,4) have "(i + 1) mod ?n = i + 1"
      by simp
    with assms(3) show ?thesis by simp
  qed
  finally show ?thesis
    using wrap by simp
qed

theorem next_wraparound_prev_inverse_witness:
  "\<not> isTransitioning example_slider \<and> currentIndex example_slider = Num 0
   \<and> (0::int) < int (slide_count example_slider)
   \<and> currentIndex ((completed Next ^^ slide_count example_slider) example_slider) = Num 0
   \<and> currentIndex (completed Prev (completed Next example_slider)) = Num 0"
proof -
  have h1: "\<not> isTransitioning example_slider"
    by code_simp
  have h2: "currentIndex example_slider = Num 0"
    by code_simp
  have h3: "(0::int) \<le> 0"
    by simp
  have h4: "0 < int (slide_count example_slider)"
    by code_simp
  from next_wraparound_prev_inverse [OF h1 h2 h3 h4] h1 h2 h4 show ?thesis
    by simp
qed

text \<open>
  Claim C5. In every state, \<^verbatim>\<open>goto\<close> with the index \<open>currentIndex\<close> holds changes
  nothing at all: no flag, no index, no class, no content, no timer and no queued
  callback. (The index domain is the integers; \<^verbatim>\<open>NaN\<close> is equal to no index.)
\<close>

theorem goto_current_is_noop:
  assumes "currentIndex s = Num k"
  shows "goToSlide s (Num k) = s \<and> step s (Command (Goto (Num k))) = s"
  using assms by (simp add: goToSlide_def)

theorem goto_current_is_noop_witness:
  "currentIndex example_slider = Num 0
   \<and> goToSlide example_slider (Num 0) = example_slider
   \<and> step example_slider (Command (Goto (Num 0))) = example_slider"
proof -
  have h: "currentIndex example_slider = Num 0"
    by code_simp
  from goto_current_is_noop [OF h] h show ?thesis
    by simp
qed

text \<open>
  Claim C6. A gesture from \<open>(sx, sy)\<close> to \<open>(ex, ey)\<close> calls a command exactly when the
  horizontal displacement is greater than the vertical one and greater than 50 pixels,
  both in absolute value; it then calls one command, \<^verbatim>\<open>next\<close> for a drag to the left
  and \<^verbatim>\<open>prev\<close> for a drag to the right. So 60 pixels across and 10 down call one
  command, and 30 pixels across call none.
\<close>

theorem swipe_decision:
  "touchend (touchstart s sx sy) ex ey =
     (if \<bar>ex - sx\<bar> > \<bar>ey - sy\<bar> \<and> \<bar>ex - sx\<bar> > 50
      then (if ex < sx then nextSlide (touchstart s sx sy) else prevSlide (touchstart s sx sy))
      else touchstart s sx sy)
   \<and> (\<bar>ex - sx\<bar> = 60 \<and> \<bar>ey - sy\<bar> = 10 \<longrightarrow>
        touchend (touchstart s sx sy) ex ey =
          (if ex < sx then nextSlide (touchstart s sx sy) else prevSlide (touchstart s sx sy)))
   \<and> (\<bar>ex - sx\<bar> = 30 \<longrightarrow> touchend (touchstart s sx sy) ex ey = touchstart s sx sy)"
  by (auto simp add: touchend_def touchstart_def Let_def)

theorem swipe_decision_witness:
  "touchend (touchstart example_slider 200 100) 140 110 =
     nextSlide (touchstart example_slider 200 100)
   \<and> touchend (touchstart example_slider 200 100) 260 90 =
     prevSlide (touchstart example_slider 200 100)
   \<and> touchend (touchstart example_slider 200 100) 170 100 =
     touchstart example_slider 200 100"
  using swipe_decision [of example_slider 200 100 140 110]
    swipe_decision [of example_slider 200 100 260 90]
    swipe_decision [of example_slider 200 100 170 100]
  by simp

section \<open>Which indices the slider can hold\<close>

lemma slide_count_goToSlide [simp]: "slide_count (goToSlide s i) = slide_count s"
  using slide_count_exec_command [of s "Goto i"] by simp

lemma index_valid_exec_command:
  assumes "index_valid s" and "goto_in_range (slide_count s) (Command c)"
  shows "index_valid (exec_command s c)"
proof -
  from assms(1) obtain k where k: "currentIndex s = Num k" "0 \<le> k" "k < int (slide_count s)"
    by (auto simp add: index_valid_def)
  then have pos: "0 < slide_count s"
    by (cases "slide_count s") simp_all
  show ?thesis
  proof (cases "isTransitioning s")
    case True
    with assms(1) show ?thesis by (simp add: exec_command_busy)
  next
    case idle: False
    show ?thesis
    proof (cases c)
      case Next
      from k pos idle have "nextSlide s = goToSlide s (Num ((k + 1) mod int (slide_count s)))"
        by (simp add: nextSlide_def)
      with Next idle k pos show ?thesis
        by (simp add: index_valid_def goToSlide_index)
    next
      case Prev
      from k idle have "prevSlide s =
          goToSlide s (Num (if k = 0 then int (slide_count s) - 1 else k - 1))"
        by (simp add: prevSlide_def)
      with Prev idle k pos show ?thesis
        by (simp add: index_valid_def goToSlide_index)
    next
      case (Goto index)
      with assms(2) obtain j where j: "index = Num j" "0 \<le> j" "j < int (slide_count s)"
        by (cases index) simp_all
      with Goto idle k show ?thesis
        by (simp add: index_valid_def goToSlide_index)
    qed
  qed
qed

lemma index_valid_step:
  assumes "index_valid s" and "goto_in_range (slide_count s) e"
  shows "index_valid (step s e)"
proof (cases e)
  case (Command c)
  with assms show ?thesis by (simp add: index_valid_exec_command)
next
  case Timeout
  with assms(1) show ?thesis
    by (cases "resetTimeouts s") (simp_all add: index_valid_def)
next
  case TimelineCall
  with assms(1) show ?thesis
    by (cases "timelineCalls s") (simp_all add: index_valid_def)
next
  case AutoPlayTick
  from assms(1) have "index_valid (exec_command s Next)"
    by (rule index_valid_exec_command) simp
  with AutoPlayTick assms(1) show ?thesis
    by (cases "autoPlayTimer s") simp_all
qed

lemma index_valid_run:
  "index_valid s \<Longrightarrow> \<forall>e \<in> set es. goto_in_range (slide_count s) e \<Longrightarrow> index_valid (run s es)"
proof (induction es arbitrary: s)
  case Nil
  then show ?case by simp
next
  case (Cons e es)
  from Cons.prems have "index_valid (step s e)"
    by (simp add: index_valid_step)
  moreover from Cons.prems have "\<forall>x \<in> set es. goto_in_range (slide_count (step s e)) x"
    by simp
  ultimately show ?case
    using Cons.IH by simp
qed

lemma constructor_doc_index:
  "slide_active (doc (constructor d opts)) = class_set (class_set (slide_active d) (Num 0) False) (Num 0) True
     \<or> slide_active (doc (constructor d opts)) = slide_active d"
  "currentIndex (constructor d opts) = Num 0"
  by (simp_all add: constructor_def init_def updateSlide_fields)

lemma slide_count_constructor [simp]:
  "slide_count (constructor d opts) = length (slide_active d)"
  using constructor_doc_index(1) [of d opts] by auto

lemma index_valid_constructor:
  "slide_active d \<noteq> [] \<Longrightarrow> index_valid (constructor d opts)"
  by (simp add: index_valid_def constructor_doc_index(2))

text \<open>
  Claim C2, as the code has it. \<^verbatim>\<open>goToSlide\<close> checks no bounds: on an idle slider it
  starts a transition to any index that differs from the current one and commits that
  index, inside the slide collection or not. What keeps \<open>currentIndex\<close> on a slide is
  the callers: on a page with at least one slide, after any sequence of events whose
  \<^verbatim>\<open>goto\<close> arguments are all indices of slides, \<open>currentIndex\<close> is an integer from 0
  up to the slide count, exclusive.
\<close>

theorem goto_unchecked_index_valid_for_valid_gotos:
  "(\<not> isTransitioning s \<and> \<not> js_strict_eq index (currentIndex s) \<longrightarrow>
      currentIndex (goToSlide s index) = index \<and> isTransitioning (goToSlide s index))
   \<and> (slide_active d \<noteq> [] \<and> (\<forall>e \<in> set es. goto_in_range (length (slide_active d)) e) \<longrightarrow>
      (\<exists>k. currentIndex (run (constructor d opts) es) = Num k
           \<and> 0 \<le> k \<and> k < int (slide_count (run (constructor d opts) es))))"
proof -
  have nocheck: "\<not> isTransitioning s \<and> \<not> js_strict_eq index (currentIndex s) \<longrightarrow>
      currentIndex (goToSlide s index) = index \<and> isTransitioning (goToSlide s index)"
    by (simp add: goToSlide_def updateSlide_fields)
  have valid: "\<exists>k. currentIndex (run (constructor d opts) es) = Num k
           \<and> 0 \<le> k \<and> k < int (slide_count (run (constructor d opts) es))"
    if "slide_active d \<noteq> []" and "\<forall>e \<in> set es. goto_in_range (length (slide_active d)) e"
  proof -
    from that have "index_valid (run (constructor d opts) es)"
      by (simp add: index_valid_run index_valid_constructor)
    then show ?thesis
      by (simp add: index_valid_def)
  qed
  from nocheck valid show ?thesis
    by blast
qed

theorem goto_unchecked_index_valid_for_valid_gotos_witness:
  "\<not> isTransitioning example_slider
   \<and> currentIndex (goToSlide example_slider (Num 2)) = Num 2
   \<and> isTransitioning (goToSlide example_slider (Num 2))
   \<and> goto_in_range (length (slide_active example_page)) (Command (Goto (Num 1)))
   \<and> (\<exists>k. currentIndex (run (constructor example_page
            \<lparr>opt_pets = None, opt_autoPlay = None, opt_autoPlayDelay = None\<rparr>)
            [Timeout, Command Prev, Timeout, Command (Goto (Num 1))]) = Num k
          \<and> 0 \<le> k
          \<and> k < int (slide_count (run (constructor example_page
            \<lparr>opt_pets = None, opt_autoPlay = None, opt_autoPlayDelay = None\<rparr>)
            [Timeout, Command Prev, Timeout, Command (Goto (Num 1))])))"
proof -
  have h1: "\<not> isTransitioning example_slider"
    by code_simp
  have h2: "\<not> js_strict_eq (Num 2) (currentIndex example_slider)"
    by code_simp
  have h3: "slide_active example_page \<noteq> []"
    by (simp add: example_page_def)
  have h4: "\<forall>e \<in> set [Timeout, Command Prev, Timeout, Command (Goto (Num 1))].
              goto_in_range (length (slide_active example_page)) e"
    by (simp add: example_page_def)
  have h5: "goto_in_range (length (slide_active example_page)) (Command (Goto (Num 1)))"
    by (simp add: example_page_def)
  from goto_unchecked_index_valid_for_valid_gotos
         [of example_slider "Num 2" example_page
             "[Timeout, Command Prev, Timeout, Command (Goto (Num 1))]"
             "\<lparr>opt_pets = None, opt_autoPlay = None, opt_autoPlayDelay = None\<rparr>"]
       h1 h2 h3 h4 h5
  show ?thesis
    by blast
qed

theorem goto_out_of_bounds_counterexample:
  "slide_count example_slider = 3
   \<and> \<not> isTransitioning example_slider
   \<and> goToSlide example_slider (Num 5) \<noteq> example_slider
   \<and> currentIndex (goToSlide example_slider (Num 5)) = Num 5
   \<and> currentIndex (run example_slider [Command (Goto (Num 5)), Timeout]) = Num 5"
  by code_simp

section \<open>The autoplay timer\<close>

lemma autoPlayTimer_exec_command [simp]:
  "autoPlayTimer (exec_command s c) = autoPlayTimer s"
  using exec_command_cases [of s c] by (auto simp add: updateSlide_fields)

lemma autoPlayTimer_step [simp]: "autoPlayTimer (step s e) = autoPlayTimer s"
proof (cases e)
  case (Command c)
  then show ?thesis by simp
next
  case Timeout
  then show ?thesis by (cases "resetTimeouts s") simp_all
next
  case TimelineCall
  then show ?thesis by (cases "timelineCalls s") simp_all
next
  case AutoPlayTick
  then show ?thesis
    using autoPlayTimer_exec_command [of s Next] by (cases "autoPlayTimer s") simp_all
qed

lemma autoPlayTimer_run [simp]: "autoPlayTimer (run s es) = autoPlayTimer s"
  by (induction es arbitrary: s) simp_all

lemma autoPlayDelay_init [simp]: "autoPlayDelay (init s) = autoPlayDelay s"
  by (simp add: init_def updateSlide_fields)

lemma autoPlayTimer_init:
  "container (doc s) \<Longrightarrow> 1 < slide_count s \<Longrightarrow> autoPlay s \<Longrightarrow>
   autoPlayTimer (init s) = Some (autoPlayDelay s)"
  by (auto simp add: init_def updateSlide_fields startAutoPlay_def)

lemma autoPlayTimer_init_off:
  "\<not> autoPlay s \<Longrightarrow> autoPlayTimer s = None \<Longrightarrow> autoPlayTimer (init s) = None"
  by (simp add: init_def updateSlide_fields)

text \<open>
  Claim C3, as the code has it. Without an \<^verbatim>\<open>autoPlayDelay\<close> option the constructor
  takes 5000 milliseconds; the 6000 of the page is what its \<^verbatim>\<open>DOMContentLoaded\<close>
  handler passes. With a container, more than one slide and autoplay not switched off,
  the constructor starts an interval whose period is \<open>autoPlayDelay\<close>; no command,
  completion or callback stops it, and each of its ticks calls \<^verbatim>\<open>nextSlide\<close>. With
  autoplay switched off there is no interval and nothing ticks.
\<close>

theorem autoplay_period:
  "autoPlayDelay (constructor d \<lparr>opt_pets = ps, opt_autoPlay = ap, opt_autoPlayDelay = None\<rparr>)
     = 5000
   \<and> autoPlayDelay (domContentLoaded d petsData) = 6000
   \<and> (container d \<and> 1 < length (slide_active d) \<and> opt_autoPlay opts \<noteq> Some False \<longrightarrow>
        autoPlayTimer (run (constructor d opts) es) = Some (autoPlayDelay (constructor d opts)))
   \<and> (opt_autoPlay opts = Some False \<longrightarrow> autoPlayTimer (run (constructor d opts) es) = None)
   \<and> (autoPlayTimer s = Some t \<longrightarrow> step s AutoPlayTick = nextSlide s)
   \<and> (autoPlayTimer s = None \<longrightarrow> step s AutoPlayTick = s)"
  by (simp add: constructor_def domContentLoaded_def autoPlayTimer_init autoPlayTimer_init_off)

theorem autoplay_period_witness:
  "autoPlayTimer (run (constructor example_page
       \<lparr>opt_pets = None, opt_autoPlay = None, opt_autoPlayDelay = None\<rparr>) [Timeout, Command Next])
     = Some 5000
   \<and> autoPlayTimer example_slider = Some 6000
   \<and> step example_slider AutoPlayTick = nextSlide example_slider
   \<and> autoPlayTimer (run (constructor example_page
       \<lparr>opt_pets = None, opt_autoPlay = Some False, opt_autoPlayDelay = None\<rparr>) [Timeout])
     = None
   \<and> step (constructor example_page
       \<lparr>opt_pets = None, opt_autoPlay = Some False, opt_autoPlayDelay = None\<rparr>) AutoPlayTick
     = constructor example_page
       \<lparr>opt_pets = None, opt_autoPlay = Some False, opt_autoPlayDelay = None\<rparr>"
proof -
  let ?on = "\<lparr>opt_pets = None, opt_autoPlay = None, opt_autoPlayDelay = None\<rparr>"
  let ?off = "\<lparr>opt_pets = None, opt_autoPlay = Some False, opt_autoPlayDelay = None\<rparr>"
  have h1: "container example_page \<and> 1 < length (slide_active example_page)"
    by (simp add: example_page_def)
  have h2: "opt_autoPlay ?on \<noteq> Some False"
    by simp
  have h3: "autoPlayTimer example_slider = Some 6000"
    by code_simp
  have h4: "opt_autoPlay ?off = Some False"
    by simp
  have h5: "autoPlayTimer (constructor example_page ?off) = None"
    by code_simp
  from autoplay_period [of example_page None None None ?on "[Timeout, Command Next]"
           example_slider 6000]
       autoplay_period [of example_page None None None ?off "[Timeout]"
           "constructor example_page ?off" 0]
       h1 h2 h3 h4 h5
  show ?thesis
    by (simp del: run.simps step.simps)
qed

theorem autoplay_default_counterexample:
  "autoPlayDelay (constructor example_page
       \<lparr>opt_pets = None, opt_autoPlay = None, opt_autoPlayDelay = None\<rparr>) = 5000
   \<and> autoPlayTimer (constructor example_page
       \<lparr>opt_pets = None, opt_autoPlay = None, opt_autoPlayDelay = None\<rparr>) = Some 5000
   \<and> autoPlayDelay (constructor example_page
       \<lparr>opt_pets = None, opt_autoPlay = None, opt_autoPlayDelay = None\<rparr>) \<noteq> 6000"
  by code_simp

section \<open>Stagger delays\<close>

lemma array_set_end: "array_set xs (length xs) v = xs @ [Some v]"
  by (simp add: array_set_def)

lemma for_loop_from_end:
  "length delays = i \<Longrightarrow> i \<le> len \<Longrightarrow>
   for_loop f i len delays = delays @ map (\<lambda>j. Some (f j)) [i..<len]"
proof (induction f i len delays rule: for_loop.induct)
  case (1 f i len delays)
  show ?case
  proof (cases "i < len")
    case True
    from "1.prems" have "array_set delays i (f i) = delays @ [Some (f i)]"
      using array_set_end [of delays "f i"] by simp
    moreover from True "1.prems"
    have "for_loop f (Suc i) len (array_set delays i (f i)) =
            array_set delays i (f i) @ map (\<lambda>j. Some (f j)) [Suc i..<len]"
      by (intro "1.IH") (simp_all add: array_set_def)
    ultimately show ?thesis
      using True by (subst for_loop.simps) (simp add: upt_conv_Cons)
  next
    case False
    with "1.prems" show ?thesis
      by (subst for_loop.simps) simp
  qed
qed

lemma stagger_start:
  "calculateStaggerDelays n d From_start = map (\<lambda>j. Some (real j * d)) [0..<n]"
  by (simp add: calculateStaggerDelays_def for_loop_from_end)

lemma stagger_end:
  "calculateStaggerDelays n d From_end = map (\<lambda>j. Some ((real n - 1 - real j) * d)) [0..<n]"
  by (simp add: calculateStaggerDelays_def for_loop_from_end)

lemma stagger_end_rev:
  "calculateStaggerDelays n d From_end = rev (calculateStaggerDelays n d From_start)"
proof (rule nth_equalityI)
  show "length (calculateStaggerDelays n d From_end) =
        length (rev (calculateStaggerDelays n d From_start))"
    by (simp add: stagger_start stagger_end)
next
  fix i
  assume "i < length (calculateStaggerDelays n d From_end)"
  then have i: "i < n"
    by (simp add: stagger_end)
  then have "real (n - Suc i) = real n - 1 - real i"
    by (simp add: of_nat_diff)
  with i show "calculateStaggerDelays n d From_end ! i =
               rev (calculateStaggerDelays n d From_start) ! i"
    by (simp add: stagger_start stagger_end rev_nth)
qed

text \<open>
  Claim C9. For every element count \<open>n\<close> and stagger delay \<open>d\<close>, the delays computed
  from the end are the delays computed from the start in reverse order; the list from
  the start has \<open>n\<close> entries, entry \<open>i\<close> being \<open>i * d\<close>; and every delay of either list
  is \<open>d\<close> times a natural number.
\<close>

theorem stagger_end_is_reversed_start:
  "calculateStaggerDelays n d From_end = rev (calculateStaggerDelays n d From_start)
   \<and> length (calculateStaggerDelays n d From_start) = n
   \<and> (\<forall>i < n. calculateStaggerDelays n d From_start ! i = Some (real i * d))
   \<and> (\<forall>x \<in> set (calculateStaggerDelays n d From_start)
              \<union> set (calculateStaggerDelays n d From_end).
        \<exists>k::nat. x = Some (real k * d))"
proof -
  have multiples: "\<exists>k::nat. x = Some (real k * d)"
    if "x \<in> set (calculateStaggerDelays n d From_start)" for x
    using that by (auto simp add: stagger_start)
  have "set (calculateStaggerDelays n d From_end) = set (calculateStaggerDelays n d From_start)"
    by (simp add: stagger_end_rev)
  with multiples show ?thesis
    by (auto simp add: stagger_end_rev) (simp_all add: stagger_start)
qed

theorem stagger_end_is_reversed_start_witness:
  "calculateStaggerDelays 3 (1 / 10) From_end = [Some (2 / 10), Some (1 / 10), Some 0]
   \<and> calculateStaggerDelays 3 (1 / 10) From_start ! 2 = Some (2 / 10)
   \<and> Some (2 / 10) \<in> set (calculateStaggerDelays 3 (1 / 10) From_start)
   \<and> (\<exists>k::nat. Some (2 / 10 :: real) = Some (real k * (1 / 10)))"
proof -
  have start: "calculateStaggerDelays 3 (1 / 10) From_start = [Some 0, Some (1 / 10), Some (2 / 10)]"
    by (simp add: calculateStaggerDelays_def for_loop.simps array_set_def)
  have mem: "Some (2 / 10) \<in> set (calculateStaggerDelays 3 (1 / 10) From_start)"
    by (simp add: start)
  from stagger_end_is_reversed_start [of 3 "1 / 10"] start mem show ?thesis
    by auto
qed

section \<open>Slides without a pet\<close>

lemma pets_exec_command [simp]: "pets (exec_command s c) = pets s"
  using exec_command_cases [of s c] by (auto simp add: updateSlide_fields)

lemma pets_step [simp]: "pets (step s e) = pets s"
proof (cases e)
  case (Command c)
  then show ?thesis by simp
next
  case Timeout
  then show ?thesis by (cases "resetTimeouts s") simp_all
next
  case TimelineCall
  then show ?thesis by (cases "timelineCalls s") simp_all
next
  case AutoPlayTick
  then show ?thesis
    using pets_exec_command [of s Next] by (cases "autoPlayTimer s") simp_all
qed

lemma pets_run [simp]: "pets (run s es) = pets s"
  by (induction es arbitrary: s) simp_all

lemma updateContent_no_pet: "int (length (pets s)) \<le> i \<Longrightarrow> updateContent s (Num i) = s"
  by (simp add: updateContent_def)

lemma updateSlide_no_pet:
  "\<not> isTransitioning s \<Longrightarrow> int (length (pets s)) \<le> i \<Longrightarrow>
   content (doc (updateSlide s (Num i) a)) = content (doc s)"
  by (simp add: updateSlide_def Let_def content_def animateSlideTransition_def)

text \<open>
  Claim C10. Let the slider be idle and let \<open>i\<close> be the index of a slide, other than the
  current one, for which the pets array has no entry. Then \<^verbatim>\<open>goto(i)\<close> starts a
  transition and commits \<open>currentIndex = i\<close>; slide and dot \<open>i\<close> get the active class and
  those of the previous index lose it; title, links, counter, age and breed keep what
  they showed; and the content update queued on the timeline, whenever it runs later,
  changes nothing either.
\<close>

theorem short_pets_keeps_content:
  assumes "\<not> isTransitioning s" and "currentIndex s = Num j" and "i \<noteq> j"
    and "int (length (pets s)) \<le> i" and "i < int (slide_count s)"
  shows "currentIndex (goToSlide s (Num i)) = Num i
         \<and> isTransitioning (goToSlide s (Num i))
         \<and> slide_active (doc (goToSlide s (Num i))) =
             class_set (class_set (slide_active (doc s)) (Num j) False) (Num i) True
         \<and> dot_active (doc (goToSlide s (Num i))) =
             class_set (class_set (dot_active (doc s)) (Num j) False) (Num i) True
         \<and> slide_active (doc (goToSlide s (Num i))) ! nat i
         \<and> content (doc (goToSlide s (Num i))) = content (doc s)
         \<and> timelineCalls (goToSlide s (Num i)) = timelineCalls s @ [Num i]
         \<and> updateContent (run (goToSlide s (Num i)) es) (Num i) = run (goToSlide s (Num i)) es"
proof -
  from assms(1-3) have go: "goToSlide s (Num i) = updateSlide s (Num i) True"
    by (simp add: goToSlide_def)
  have idle: "\<not> (isTransitioning s \<and> True)"
    using assms(1) by simp
  from assms(4) have nonneg: "0 \<le> i"
    by linarith
  have "pets (run (goToSlide s (Num i)) es) = pets s"
    by (simp add: go updateSlide_fields(4) [OF idle])
  with assms(4) have later: "updateContent (run (goToSlide s (Num i)) es) (Num i) =
      run (goToSlide s (Num i)) es"
    by (simp add: updateContent_no_pet)
  have active: "slide_active (doc (goToSlide s (Num i))) ! nat i"
    using assms(2,5) nonneg by (simp add: go updateSlide_fields(8) [OF idle])
  have kept: "content (doc (goToSlide s (Num i))) = content (doc s)"
    using assms(1,4) by (simp add: go updateSlide_no_pet)
  from later active kept show ?thesis
    using assms(2) by (simp add: go updateSlide_fields [OF idle])
qed

theorem short_pets_keeps_content_witness:
  "\<not> isTransitioning example_slider \<and> currentIndex example_slider = Num 0
   \<and> int (length (pets example_slider)) \<le> 2 \<and> 2 < int (slide_count example_slider)
   \<and> currentIndex (goToSlide example_slider (Num 2)) = Num 2
   \<and> slide_active (doc (goToSlide example_slider (Num 2))) = [False, False, True]
   \<and> content (doc (goToSlide example_slider (Num 2))) = content (doc example_slider)
   \<and> updateContent (run (goToSlide example_slider (Num 2)) [TimelineCall, Timeout]) (Num 2)
       = run (goToSlide example_slider (Num 2)) [TimelineCall, Timeout]"
proof -
  have h1: "\<not> isTransitioning example_slider"
    by code_simp
  have h2: "currentIndex example_slider = Num 0"
    by code_simp
  have h3: "(2::int) \<noteq> 0"
    by simp
  have h4: "int (length (pets example_slider)) \<le> 2"
    by code_simp
  have h5: "2 < int (slide_count example_slider)"
    by code_simp
  have before: "slide_active (doc example_slider) = [True, False, False]"
    by code_simp
  from short_pets_keeps_content [OF h1 h2 h3 h4 h5, of "[TimelineCall, Timeout]"]
       h1 h2 h4 h5 before
  show ?thesis
    by (simp del: run.simps step.simps)
qed

end
